theory Spec2Isabelle
  imports Main "HOL-Library.Char_ord" "HOL-Library.List_Lexorder" "HOL-Library.AList"
begin

section \<open>Filesystem and pathlib\<close>

text \<open>
  The scripts read the filesystem through \<^verbatim>\<open>pathlib\<close>. A filesystem state is a tree:
  a regular file, or a directory with its entries in the order the operating system lists
  them (the order \<^verbatim>\<open>iterdir\<close>, \<^verbatim>\<open>glob\<close> and \<^verbatim>\<open>rglob\<close> yield). A path is
  the list of its components below the filesystem root, so \<open>[]\<close> is the root \<^verbatim>\<open>/\<close>.
  Paths are taken as \<^verbatim>\<open>Path.resolve()\<close> returns them: absolute, without symbolic links.
\<close>

datatype node = File | Dir "(string \<times> node) list"

type_synonym path = "string list"

fun child :: "node \<Rightarrow> string \<Rightarrow> node option" where
  "child File c = None"
| "child (Dir es) c = map_of es c"

primrec lookup :: "node \<Rightarrow> path \<Rightarrow> node option" where
  "lookup n [] = Some n"
| "lookup n (c # cs) = (case child n c of None \<Rightarrow> None | Some m \<Rightarrow> lookup m cs)"

definition is_dir :: "node \<Rightarrow> path \<Rightarrow> bool" where
  "is_dir fs p = (case lookup fs p of Some (Dir es) \<Rightarrow> True | _ \<Rightarrow> False)"

definition is_file :: "node \<Rightarrow> path \<Rightarrow> bool" where
  "is_file fs p = (case lookup fs p of Some File \<Rightarrow> True | _ \<Rightarrow> False)"

definition exists_path :: "node \<Rightarrow> path \<Rightarrow> bool" where
  "exists_path fs p = (case lookup fs p of Some n \<Rightarrow> True | None \<Rightarrow> False)"

text \<open>The names of a directory's entries, in listing order; nothing for a path that is
  not a directory (every caller tests \<^verbatim>\<open>is_dir\<close> first, or uses \<^verbatim>\<open>glob\<close>, which
  yields nothing there).\<close>

definition iterdir :: "node \<Rightarrow> path \<Rightarrow> string list" where
  "iterdir fs p = (case lookup fs p of Some (Dir es) \<Rightarrow> map fst es | _ \<Rightarrow> [])"

text \<open>\<^verbatim>\<open>Path.parent\<close> (the root is its own parent), \<^verbatim>\<open>Path.name\<close> (empty for the
  root) and \<^verbatim>\<open>Path.parents\<close> (closest first, ending with the root).\<close>

definition parent :: "path \<Rightarrow> path" where
  "parent p = butlast p"

definition name :: "path \<Rightarrow> string" where
  "name p = (if p = [] then [] else last p)"

definition parents :: "path \<Rightarrow> path list" where
  "parents p = map (\<lambda>n. take n p) (rev [0..<length p])"

text \<open>\<^verbatim>\<open>PurePath.suffix\<close>: with \<open>i\<close> the index of the last dot of the name, the name
  from \<open>i\<close> on if \<open>0 < i < len(name) - 1\<close>, else the empty string. \<^verbatim>\<open>PurePath.stem\<close> is
  the rest of the name.\<close>

definition after_dot :: "string \<Rightarrow> nat" where
  "after_dot nm = length (takeWhile (\<lambda>c. c \<noteq> CHR ''.'') (rev nm))"

definition has_suffix :: "string \<Rightarrow> bool" where
  "has_suffix nm = (after_dot nm < length nm \<and> 0 < length nm - after_dot nm - 1 \<and> 0 < after_dot nm)"

definition suffix :: "string \<Rightarrow> string" where
  "suffix nm = (if has_suffix nm then drop (length nm - after_dot nm - 1) nm else [])"

definition stem :: "string \<Rightarrow> string" where
  "stem nm = (if has_suffix nm then take (length nm - after_dot nm - 1) nm else nm)"

text \<open>\<^verbatim>\<open>str.endswith\<close>, and \<^verbatim>\<open>Path.glob("*" + ext)\<close>: the entries of a directory
  whose name ends with \<open>ext\<close> (the star also matches the empty string and a leading
  dot), in listing order.\<close>

definition endswith :: "string \<Rightarrow> string \<Rightarrow> bool" where
  "endswith s t = (length t \<le> length s \<and> drop (length s - length t) s = t)"

definition glob_star :: "node \<Rightarrow> path \<Rightarrow> string \<Rightarrow> string list" where
  "glob_star fs d ext = filter (\<lambda>nm. endswith nm ext) (iterdir fs d)"

section \<open>Root locators\<close>

subsection \<open>project\_info.py\<close>

text \<open>The inner loop of \<^verbatim>\<open>find_project_root\<close>: over the entries of \<^verbatim>\<open>Project\<close>,
  leaving at the first one whose suffix is \<^verbatim>\<open>.4DProject\<close>.\<close>

fun has_4DProject_entry :: "string list \<Rightarrow> bool" where
  "has_4DProject_entry [] = False"
| "has_4DProject_entry (f # fs) = (if suffix f = ''.4DProject'' then True else has_4DProject_entry fs)"

text \<open>The outer loop over \<^verbatim>\<open>[p, *p.parents]\<close>; \<open>None\<close> is Python's \<^verbatim>\<open>None\<close>.\<close>

fun project_info_walk :: "node \<Rightarrow> path list \<Rightarrow> path option" where
  "project_info_walk fs [] = None"
| "project_info_walk fs (d # ds) =
     (if is_dir fs (d @ [''Project'']) \<and> has_4DProject_entry (iterdir fs (d @ [''Project'']))
      then Some d else project_info_walk fs ds)"

definition project_info_start :: "node \<Rightarrow> path \<Rightarrow> path" where
  "project_info_start fs start_path = (if is_file fs start_path then parent start_path else start_path)"

definition project_info_find_project_root :: "node \<Rightarrow> path \<Rightarrow> path option" where
  "project_info_find_project_root fs start_path =
     (let p = project_info_start fs start_path in project_info_walk fs (p # parents p))"

subsection \<open>clean.py\<close>

datatype error =
    FileNotFoundError | NotADirectoryError | IsADirectoryError | JSONDecodeError
  | TypeError | KeyError | AttributeError

text \<open>The two inner loops: over \<^verbatim>\<open>glob("*.4DProject")\<close> of a directory, leaving at the
  first match that is a regular file.\<close>

fun has_4DProject_file :: "node \<Rightarrow> path \<Rightarrow> string list \<Rightarrow> bool" where
  "has_4DProject_file fs d [] = False"
| "has_4DProject_file fs d (f # rest) = (if is_file fs (d @ [f]) then True else has_4DProject_file fs d rest)"

fun clean_walk :: "node \<Rightarrow> path list \<Rightarrow> error + path" where
  "clean_walk fs [] = Inl FileNotFoundError"
| "clean_walk fs (directory # ds) =
     (if is_dir fs (directory @ [''Project'']) \<and>
         has_4DProject_file fs (directory @ [''Project''])
           (glob_star fs (directory @ [''Project'']) ''.4DProject'')
      then Inr directory
      else if name directory = ''Project'' \<and>
         has_4DProject_file fs directory (glob_star fs directory ''.4DProject'')
      then Inr (parent directory)
      else clean_walk fs ds)"

definition clean_find_project_root :: "node \<Rightarrow> path \<Rightarrow> error + path" where
  "clean_find_project_root fs start_path = clean_walk fs (start_path # parents start_path)"

subsection \<open>add\_dependency.py\<close>

text \<open>The \<^verbatim>\<open>while current != current.parent\<close> loop.\<close>

function add_dependency_find_project_root :: "node \<Rightarrow> path \<Rightarrow> path option" where
  "add_dependency_find_project_root fs current =
     (if current \<noteq> parent current then
        (if is_dir fs (current @ [''Project'', ''Sources'']) then Some current
         else if name current = ''Sources'' \<and> name (parent current) = ''Project''
           then Some (parent (parent current))
         else if name current = ''Project'' \<and> is_dir fs (current @ [''Sources''])
           then Some (parent current)
         else add_dependency_find_project_root fs (parent current))
      else None)"
  by pat_completeness auto
termination
proof (relation "measure (\<lambda>(fs, p). length p)")
  fix fs :: node and current :: path
  assume "current \<noteq> parent current"
  then have "current \<noteq> []" by (auto simp: parent_def)
  then show "((fs, parent current), (fs, current)) \<in> measure (\<lambda>(fs, p). length p)"
    by (simp add: parent_def)
qed simp

declare add_dependency_find_project_root.simps [simp del]

section \<open>Source tree walker (project\_info.py)\<close>

text \<open>\<^verbatim>\<open>Path.rglob("*" + ext)\<close> below a directory node, as paths relative to it: the
  matches directly in the directory in listing order, then those of each subdirectory in
  listing order, recursively (the order of CPython 3.11's recursive selector).\<close>

fun rglob_node :: "string \<Rightarrow> node \<Rightarrow> path list" where
  "rglob_node ext File = []"
| "rglob_node ext (Dir es) =
     map (\<lambda>e. [fst e]) (filter (\<lambda>e. endswith (fst e) ext) es) @
     concat (map (\<lambda>e. map (\<lambda>q. fst e # q) (rglob_node ext (snd e))) es)"

definition rglob :: "node \<Rightarrow> path \<Rightarrow> string \<Rightarrow> path list" where
  "rglob fs d ext = (case lookup fs d of Some n \<Rightarrow> map (\<lambda>q. d @ q) (rglob_node ext n) | None \<Rightarrow> [])"

text \<open>\<^verbatim>\<open>count_files\<close>: the stems of the regular files that \<^verbatim>\<open>rglob\<close> yields, in the
  order it yields them.\<close>

definition count_files :: "node \<Rightarrow> path \<Rightarrow> string \<Rightarrow> string list" where
  "count_files fs directory extension =
     (if \<not> exists_path fs directory then []
      else map (\<lambda>f. stem (name f)) (filter (\<lambda>f. is_file fs f) (rglob fs directory extension)))"

text \<open>\<^verbatim>\<open>analyze_forms\<close>: one record per subdirectory of \<^verbatim>\<open>Forms\<close>, taken in sorted
  order; \<open>methods\<close> is \<open>None\<close> when the key is not set. The page count, read from the
  contents of the form file, is left out of the record. \<^verbatim>\<open>Forms\<close> is only tested with
  \<^verbatim>\<open>exists()\<close>, so \<^verbatim>\<open>iterdir()\<close> raises when it is a regular file.\<close>

record form_info =
  form_name :: string
  has_form_file :: bool
  form_methods :: "string list option"

definition form_entry :: "node \<Rightarrow> path \<Rightarrow> form_info" where
  "form_entry fs form_dir =
     (let methods = glob_star fs form_dir ''.4dm'' in
      \<lparr> form_name = name form_dir,
        has_form_file = exists_path fs (form_dir @ [''form.4DForm'']),
        form_methods = (if methods \<noteq> [] then Some (map stem methods) else None) \<rparr>)"

definition analyze_forms :: "node \<Rightarrow> path \<Rightarrow> error + form_info list" where
  "analyze_forms fs sources_dir =
     (let forms_dir = sources_dir @ [''Forms''] in
      if \<not> exists_path fs forms_dir then Inr []
      else if \<not> is_dir fs forms_dir then Inl NotADirectoryError
      else Inr (map (\<lambda>nm. form_entry fs (forms_dir @ [nm]))
                  (filter (\<lambda>nm. is_dir fs (forms_dir @ [nm])) (sort (iterdir fs forms_dir)))))"

text \<open>The enumerations of \<^verbatim>\<open>main\<close>: the method and class files fed to the analyzers,
  and the database methods.\<close>

definition sources_dir_of :: "path \<Rightarrow> path" where
  "sources_dir_of root = root @ [''Project'', ''Sources'']"

definition method_files :: "node \<Rightarrow> path \<Rightarrow> string list" where
  "method_files fs root =
     (let methods_dir = sources_dir_of root @ [''Methods''] in
      if exists_path fs methods_dir then sort (glob_star fs methods_dir ''.4dm'') else [])"

definition class_files :: "node \<Rightarrow> path \<Rightarrow> string list" where
  "class_files fs root =
     (let classes_dir = sources_dir_of root @ [''Classes''] in
      if exists_path fs classes_dir then sort (glob_star fs classes_dir ''.4dm'') else [])"

definition db_methods :: "node \<Rightarrow> path \<Rightarrow> string list" where
  "db_methods fs root =
     (let database_methods_dir = sources_dir_of root @ [''DatabaseMethods''] in
      if exists_path fs database_methods_dir then count_files fs database_methods_dir ''.4dm'' else [])"

section \<open>Marker tests and sample trees\<close>

text \<open>\<^verbatim>\<open>[p, *p.parents]\<close>: a path and its ancestors, closest first, the filesystem root
  last.\<close>

definition ancestors :: "path \<Rightarrow> path list" where
  "ancestors p = p # parents p"

text \<open>The test project\_info.py makes on each ancestor, the three tests add\_dependency.py
  makes on each ancestor, and the first of them alone (the directory holds
  \<^verbatim>\<open>Project/Sources\<close>).\<close>

definition project_info_is_root :: "node \<Rightarrow> path \<Rightarrow> bool" where
  "project_info_is_root fs d =
     (is_dir fs (d @ [''Project'']) \<and> has_4DProject_entry (iterdir fs (d @ [''Project''])))"

definition sources_root :: "node \<Rightarrow> path \<Rightarrow> bool" where
  "sources_root fs d = is_dir fs (d @ [''Project'', ''Sources''])"

definition add_dependency_is_root :: "node \<Rightarrow> path \<Rightarrow> bool" where
  "add_dependency_is_root fs d =
     (is_dir fs (d @ [''Project'', ''Sources'']) \<or>
      (name d = ''Sources'' \<and> name (parent d) = ''Project'') \<or>
      (name d = ''Project'' \<and> is_dir fs (d @ [''Sources''])))"

text \<open>A project at \<^verbatim>\<open>/home/app\<close>; a tree where \<^verbatim>\<open>/w/Project/Sources\<close> is a regular
  file; a project at the filesystem root, beside an empty directory and beside a
  directory two levels deep; a \<^verbatim>\<open>Project\<close> folder with two \<^verbatim>\<open>.4DProject\<close> files.\<close>

definition project_tree :: node where
  "project_tree = Dir [(''home'', Dir [(''app'', Dir [(''Project'',
     Dir [(''Sources'', Dir [(''Methods'', Dir [])]), (''app.4DProject'', File)])])])]"

definition stray_sources_tree :: node where
  "stray_sources_tree = Dir [(''w'', Dir [(''Project'', Dir [(''Sources'', File)])])]"

definition root_project_tree :: node where
  "root_project_tree =
     Dir [(''Project'', Dir [(''Sources'', Dir []), (''app.4DProject'', File)]), (''sub'', Dir [])]"

definition root_project_deep_tree :: node where
  "root_project_deep_tree =
     Dir [(''Project'', Dir [(''Sources'', Dir []), (''app.4DProject'', File)]),
          (''work'', Dir [(''notes'', Dir [])])]"

definition two_markers_tree :: node where
  "two_markers_tree =
     Dir [(''w'', Dir [(''Project'', Dir [(''a.4DProject'', File), (''b.4DProject'', File)])])]"

text \<open>A project whose \<^verbatim>\<open>DatabaseMethods\<close> folder and form folder list their files in
  an order that is not the lexicographic one.\<close>

definition walker_tree :: node where
  "walker_tree = Dir [(''app'', Dir [(''Project'', Dir [(''Sources'', Dir
     [(''DatabaseMethods'', Dir [(''onStartup.4dm'', File), (''onExit.4dm'', File)]),
      (''Forms'', Dir [(''Main'', Dir [(''form.4DForm'', File), (''b.4dm'', File), (''a.4dm'', File)])]),
      (''Methods'', Dir [(''z.4dm'', File), (''a.4dm'', File)])])])])]"

section \<open>Text and regular expressions\<close>

text \<open>
  A text is a list of code points; the model covers the code points below 256, one
  \<^typ>\<open>char\<close> each. The classes are those of Python 3 on \<^verbatim>\<open>str\<close>: \<^verbatim>\<open>\s\<close> and
  \<^verbatim>\<open>str.strip()\<close> take the same whitespace; \<^verbatim>\<open>\w\<close> takes the alphanumeric code points
  and the underscore; \<^verbatim>\<open>str.splitlines()\<close> breaks at the line boundaries; with
  \<^verbatim>\<open>re.IGNORECASE\<close> an ASCII letter of the pattern matches both of its cases.
\<close>

definition is_space :: "char \<Rightarrow> bool" where
  "is_space c = (let n = (of_char c :: nat) in
     (9 \<le> n \<and> n \<le> 13) \<or> (28 \<le> n \<and> n \<le> 32) \<or> n = 133 \<or> n = 160)"

definition is_word :: "char \<Rightarrow> bool" where
  "is_word c = (let n = (of_char c :: nat) in
     (48 \<le> n \<and> n \<le> 57) \<or> (65 \<le> n \<and> n \<le> 90) \<or> n = 95 \<or> (97 \<le> n \<and> n \<le> 122) \<or>
     n = 170 \<or> n = 178 \<or> n = 179 \<or> n = 181 \<or> n = 185 \<or> n = 186 \<or> (188 \<le> n \<and> n \<le> 190) \<or>
     (192 \<le> n \<and> n \<le> 214) \<or> (216 \<le> n \<and> n \<le> 246) \<or> (248 \<le> n \<and> n \<le> 255))"


definition ascii_lower :: "char \<Rightarrow> char" where
  "ascii_lower c = (let n = (of_char c :: nat) in
     if 65 \<le> n \<and> n \<le> 90 then char_of (n + 32) else c)"

definition strip :: "string \<Rightarrow> string" where
  "strip s = rev (dropWhile is_space (rev (dropWhile is_space s)))"



definition startswith :: "string \<Rightarrow> string \<Rightarrow> bool" where
  "startswith s t = (take (length t) s = t)"

text \<open>
  The patterns of the scripts use literals, character classes, a repeated character class
  (at least \<open>lo\<close> times; greedy or lazy), an optional part, numbered groups, sequence and
  the end anchor \<^verbatim>\<open>$\<close>.
\<close>

datatype re =
    Lit string
  | Cls "char \<Rightarrow> bool"
  | Rep "char \<Rightarrow> bool" nat bool
  | Opt re
  | Grp nat re
  | Seq re re
  | Eol

type_synonym mstate = "string \<times> (nat \<times> string) list"

text \<open>
  The backtracking matcher: from a state (the input left, the groups set so far) all the
  states in which the pattern can end, in the order the backtracking search of \<^verbatim>\<open>re\<close>
  tries them. A greedy repetition tries the longest run first, a lazy one the shortest; an
  optional part is tried before it is skipped. The flag is \<^verbatim>\<open>re.IGNORECASE\<close>.
\<close>

definition lit_eq :: "bool \<Rightarrow> string \<Rightarrow> string \<Rightarrow> bool" where
  "lit_eq ic s w = (if ic then map ascii_lower s = map ascii_lower w else s = w)"

fun ms :: "bool \<Rightarrow> re \<Rightarrow> mstate \<Rightarrow> mstate list" where
  "ms ic (Lit w) st =
     (if length w \<le> length (fst st) \<and> lit_eq ic (take (length w) (fst st)) w
      then [(drop (length w) (fst st), snd st)] else [])"
| "ms ic (Cls p) st =
     (case fst st of [] \<Rightarrow> [] | x # xs \<Rightarrow> if p x then [(xs, snd st)] else [])"
| "ms ic (Rep p lo greedy) st =
     (let n = length (takeWhile p (fst st));
          ks = (if greedy then rev [lo..<Suc n] else [lo..<Suc n])
      in map (\<lambda>k. (drop k (fst st), snd st)) ks)"
| "ms ic (Opt r) st = ms ic r st @ [st]"
| "ms ic (Grp i r) st =
     map (\<lambda>e. (fst e, (i, take (length (fst st) - length (fst e)) (fst st)) # snd e)) (ms ic r st)"
| "ms ic (Seq r1 r2) st = concat (map (ms ic r2) (ms ic r1 st))"
| "ms ic Eol st = (if fst st = [] \<or> fst st = [CHR 0x0A] then [st] else [])"

text \<open>\<^verbatim>\<open>re.match\<close>: the groups of the first way the pattern matches at the start of the
  string, \<open>None\<close> when there is none; \<^verbatim>\<open>m.group(i)\<close> is \<open>None\<close> for a group that took no
  part in the match.\<close>

definition first_match :: "bool \<Rightarrow> re \<Rightarrow> mstate \<Rightarrow> mstate option" where
  "first_match ic r st = (case ms ic r st of [] \<Rightarrow> None | e # rest \<Rightarrow> Some e)"

definition re_match :: "bool \<Rightarrow> re \<Rightarrow> string \<Rightarrow> (nat \<times> string) list option" where
  "re_match ic r s = map_option snd (first_match ic r (s, []))"

definition group :: "(nat \<times> string) list \<Rightarrow> nat \<Rightarrow> string option" where
  "group m i = map_of m i"

fun seqs :: "re list \<Rightarrow> re" where
  "seqs [] = Lit []"
| "seqs [r] = r"
| "seqs (r # rs) = Seq r (seqs rs)"

section \<open>Declaration extractor (project\_info.py)\<close>

text \<open>The three patterns of \<^verbatim>\<open>analyze_class\<close>:
  \<^verbatim>\<open>Class\s+extends\s+(.+)\<close>, \<^verbatim>\<open>property\s+(.+)\<close> and
  \<^verbatim>\<open>(exposed\s+)?(shared\s+)?Function\s+(\w[\w.]*)\<close>.\<close>

definition not_newline :: "char \<Rightarrow> bool" where
  "not_newline c = (c \<noteq> CHR 0x0A)"

definition word_or_dot :: "char \<Rightarrow> bool" where
  "word_or_dot c = (is_word c \<or> c = CHR ''.'')"

definition class_extends_re :: re where
  "class_extends_re =
     seqs [Lit ''Class'', Rep is_space 1 True, Lit ''extends'', Rep is_space 1 True,
           Grp 1 (Rep not_newline 1 True)]"

definition property_re :: re where
  "property_re = seqs [Lit ''property'', Rep is_space 1 True, Grp 1 (Rep not_newline 1 True)]"

definition function_re :: re where
  "function_re =
     seqs [Opt (Grp 1 (Seq (Lit ''exposed'') (Rep is_space 1 True))),
           Opt (Grp 2 (Seq (Lit ''shared'') (Rep is_space 1 True))),
           Lit ''Function'', Rep is_space 1 True,
           Grp 3 (Seq (Cls is_word) (Rep word_or_dot 0 True))]"

record class_info =
  class_name :: string
  class_lines :: nat
  class_properties :: "string list"
  class_functions :: "string list"
  class_extends :: "string option"

text \<open>Python's truth value of \<^verbatim>\<open>m.group(i)\<close>, and the body of the loop over the lines,
  on the stripped line: the three tests are made one after the other on every line.
  \<^verbatim>\<open>m.group(1).strip()\<close> raises \<^verbatim>\<open>AttributeError\<close> on a group that is \<open>None\<close>; the
  f-string prints such a group as \<^verbatim>\<open>None\<close>.\<close>

definition truthy :: "string option \<Rightarrow> bool" where
  "truthy x = (case x of None \<Rightarrow> False | Some s \<Rightarrow> s \<noteq> [])"

definition extends_test :: "string \<Rightarrow> class_info \<Rightarrow> error + class_info" where
  "extends_test stripped acc =
     (case re_match True class_extends_re stripped of
        None \<Rightarrow> Inr acc
      | Some m \<Rightarrow>
          (case group m 1 of
             None \<Rightarrow> Inl AttributeError
           | Some g \<Rightarrow> Inr (acc\<lparr>class_extends := Some (strip g)\<rparr>)))"

definition property_test :: "string \<Rightarrow> class_info \<Rightarrow> error + class_info" where
  "property_test stripped acc =
     (case re_match True property_re stripped of
        None \<Rightarrow> Inr acc
      | Some m \<Rightarrow>
          (case group m 1 of
             None \<Rightarrow> Inl AttributeError
           | Some g \<Rightarrow> Inr (acc\<lparr>class_properties := class_properties acc @ [strip g]\<rparr>)))"

definition function_test :: "string \<Rightarrow> class_info \<Rightarrow> class_info" where
  "function_test stripped acc =
     (case re_match True function_re stripped of
        None \<Rightarrow> acc
      | Some m \<Rightarrow>
          acc\<lparr>class_functions := class_functions acc @
            [(if truthy (group m 1) then ''exposed '' else []) @
             (if truthy (group m 2) then ''shared '' else []) @
             (case group m 3 of None \<Rightarrow> ''None'' | Some g \<Rightarrow> g)]\<rparr>)"

definition class_stripped :: "string \<Rightarrow> class_info \<Rightarrow> error + class_info" where
  "class_stripped stripped acc =
     (case extends_test stripped acc of
        Inl e \<Rightarrow> Inl e
      | Inr acc1 \<Rightarrow>
          (case property_test stripped acc1 of
             Inl e \<Rightarrow> Inl e
           | Inr acc2 \<Rightarrow> Inr (function_test stripped acc2)))"

definition class_line :: "string \<Rightarrow> class_info \<Rightarrow> error + class_info" where
  "class_line line acc = class_stripped (strip line) acc"


text \<open>\<^verbatim>\<open>analyze_class\<close>, from the stem of the file and its text; the text is \<open>None\<close> when
  \<^verbatim>\<open>read_text\<close> raises, and the record is then the empty one with no lines.\<close>

definition empty_class :: "string \<Rightarrow> nat \<Rightarrow> class_info" where
  "empty_class file_stem n =
     \<lparr>class_name = file_stem, class_lines = n, class_properties = [], class_functions = [],
      class_extends = None\<rparr>"


section \<open>Predicates on patterns and lines\<close>




text \<open>A modifier as it stands in a declaration line: the keyword, in either case of each
  letter, followed by one or more whitespace characters.\<close>

definition modifier :: "string \<Rightarrow> string \<Rightarrow> bool" where
  "modifier kw t =
     (length kw < length t \<and> map ascii_lower (take (length kw) t) = kw \<and>
      list_all is_space (drop (length kw) t))"

section \<open>Dependency manifest (add\_dependency.py)\<close>

subsection \<open>Repository arguments\<close>

text \<open>\<^verbatim>\<open>parse_github_url\<close>, with the pattern
  \<^verbatim>\<open>https?://github\.com/([^/]+/[^/]+?)(?:\.git)?(?:/releases/tag/([^/]+))?/?$\<close> (matched
  case-sensitively): the repository and the tag, \<open>(None, None)\<close> when the pattern does not
  match.\<close>

definition not_slash :: "char \<Rightarrow> bool" where
  "not_slash c = (c \<noteq> CHR ''/'')"

definition github_url_re :: re where
  "github_url_re =
     seqs [Lit ''http'', Opt (Lit ''s''), Lit ''://github.com/'',
           Grp 1 (seqs [Rep not_slash 1 True, Lit ''/'', Rep not_slash 1 False]),
           Opt (Lit ''.git''),
           Opt (Seq (Lit ''/releases/tag/'') (Grp 2 (Rep not_slash 1 True))),
           Opt (Lit ''/''), Eol]"

definition parse_github_url :: "string \<Rightarrow> string option \<times> string option" where
  "parse_github_url url =
     (case re_match False github_url_re url of
        Some m \<Rightarrow> (group m 1, group m 2)
      | None \<Rightarrow> (None, None))"

definition is_github_url :: "string \<Rightarrow> bool" where
  "is_github_url repo = (startswith repo ''https://github.com/'' \<or> startswith repo ''http://github.com/'')"

text \<open>\<^verbatim>\<open>str.split("/")\<close> (the first argument is the piece read so far, reversed), and
  \<^verbatim>\<open>Path(repo).name\<close>: the last component that is neither empty nor a single dot, the
  empty string when there is none.\<close>

fun split_from :: "string \<Rightarrow> string \<Rightarrow> string list" where
  "split_from cur [] = [rev cur]"
| "split_from cur (c # cs) =
     (if c = CHR ''/'' then rev cur # split_from [] cs else split_from (c # cur) cs)"

definition split_slash :: "string \<Rightarrow> string list" where
  "split_slash s = split_from [] s"

definition path_name :: "string \<Rightarrow> string" where
  "path_name repo =
     (case filter (\<lambda>x. x \<noteq> [] \<and> x \<noteq> ''.'') (split_slash repo) of
        [] \<Rightarrow> []
      | parts \<Rightarrow> last parts)"

text \<open>\<^verbatim>\<open>is_github_repo\<close> and \<^verbatim>\<open>get_dependency_name\<close>; \<open>repo_exists\<close> is the answer of
  \<^verbatim>\<open>os.path.exists(repo)\<close>.\<close>

definition is_github_repo :: "bool \<Rightarrow> string \<Rightarrow> bool" where
  "is_github_repo repo_exists repo =
     (if is_github_url repo then True
      else if repo_exists then False
      else length (split_slash repo) = 2 \<and> \<not> startswith repo ''/'' \<and> \<not> startswith repo ''.'')"

definition get_dependency_name :: "bool \<Rightarrow> string \<Rightarrow> string option \<Rightarrow> string" where
  "get_dependency_name repo_exists repo name_override =
     (if truthy name_override then the name_override
      else if is_github_url repo \<and> truthy (fst (parse_github_url repo))
        then last (split_slash (the (fst (parse_github_url repo))))
      else if is_github_repo repo_exists repo then last (split_slash repo)
      else (let nm = path_name repo in
            if endswith nm ''.4dbase'' then take (length nm - 7) nm else nm))"

subsection \<open>JSON values and the manifest file\<close>

text \<open>
  A JSON value as \<^verbatim>\<open>json.load\<close> returns it; an object is a \<^verbatim>\<open>dict\<close>, which keeps its
  keys in insertion order. The manifest file is missing, or a directory, or holds a text
  that \<^verbatim>\<open>json.load\<close> rejects, or holds the text of a JSON value; \<open>Holds v\<close> stands for
  a file whose text loads as \<open>v\<close>, and the text \<^verbatim>\<open>json.dump\<close> writes is determined by the
  value. Other failures of the operating system (permissions, a full disk) are not
  modelled.
\<close>

datatype json =
    JNull | JBool bool | JInt int | JFloat string | JStr string
  | JArr "json list" | JObj "(string \<times> json) list"

datatype json_file = Missing | NotAFile | Malformed string | Holds json

text \<open>\<^verbatim>\<open>key in x\<close>, \<^verbatim>\<open>x[key]\<close> and \<^verbatim>\<open>x[key] = v\<close> for a string key, on any JSON
  value: a list is searched for an equal element, a string for a substring, a number,
  boolean or \<^verbatim>\<open>None\<close> raises; only a \<^verbatim>\<open>dict\<close> can be indexed or assigned by a string.
  Assignment to a key of a \<^verbatim>\<open>dict\<close> replaces the value in place, or adds the key last.\<close>

definition is_substring :: "string \<Rightarrow> string \<Rightarrow> bool" where
  "is_substring k s = list_ex (\<lambda>i. take (length k) (drop i s) = k) [0..<Suc (length s)]"

fun py_contains :: "json \<Rightarrow> string \<Rightarrow> error + bool" where
  "py_contains (JObj kvs) k = Inr (k \<in> set (map fst kvs))"
| "py_contains (JArr xs) k = Inr (JStr k \<in> set xs)"
| "py_contains (JStr s) k = Inr (is_substring k s)"
| "py_contains x k = Inl TypeError"

fun py_getitem :: "json \<Rightarrow> string \<Rightarrow> error + json" where
  "py_getitem (JObj kvs) k = (case map_of kvs k of None \<Rightarrow> Inl KeyError | Some v \<Rightarrow> Inr v)"
| "py_getitem x k = Inl TypeError"

fun py_setitem :: "json \<Rightarrow> string \<Rightarrow> json \<Rightarrow> error + json" where
  "py_setitem (JObj kvs) k v = Inr (JObj (AList.update k v kvs))"
| "py_setitem x k v = Inl TypeError"

definition bind_err :: "error + 'a \<Rightarrow> ('a \<Rightarrow> error + 'b) \<Rightarrow> error + 'b" where
  "bind_err x f = (case x of Inl e \<Rightarrow> Inl e | Inr v \<Rightarrow> f v)"

text \<open>\<^verbatim>\<open>load_json_file\<close> (an empty \<^verbatim>\<open>dict\<close> when the path is not a regular file; the
  error of \<^verbatim>\<open>json.load\<close> is not caught) and \<^verbatim>\<open>save_json_file\<close> (the file then holds the
  dumped value).\<close>

fun load_json_file :: "json_file \<Rightarrow> error + json" where
  "load_json_file (Holds v) = Inr v"
| "load_json_file (Malformed t) = Inl JSONDecodeError"
| "load_json_file Missing = Inr (JObj [])"
| "load_json_file NotAFile = Inr (JObj [])"

fun save_json_file :: "json_file \<Rightarrow> json \<Rightarrow> error + json_file" where
  "save_json_file NotAFile data = Inl IsADirectoryError"
| "save_json_file f data = Inr (Holds data)"

subsection \<open>add\_dependency\<close>

text \<open>The block \<^verbatim>\<open># Build dependency entry\<close>: \<^verbatim>\<open>tag or url_tag\<close> is the first operand
  when it is true, else the second.\<close>

definition py_or :: "string option \<Rightarrow> string option \<Rightarrow> string option" where
  "py_or a b = (if truthy a then a else b)"

definition build_entry ::
  "bool \<Rightarrow> string \<Rightarrow> string option \<Rightarrow> string option \<Rightarrow> string option \<Rightarrow> json" where
  "build_entry github_repo github_path tag url_tag version =
     (if github_repo then
        (let effective_tag = py_or tag url_tag in
         if truthy effective_tag
           then JObj [(''github'', JStr github_path), (''tag'', JStr (the effective_tag))]
         else if truthy version
           then JObj [(''github'', JStr github_path), (''version'', JStr (the version))]
         else JObj [(''github'', JStr github_path)])
      else JObj [])"

text \<open>The block \<^verbatim>\<open># Update dependencies.json\<close>: load, default the two keys, set the
  entry in the \<^verbatim>\<open>dependencies\<close> object (which stays where it is in the manifest), save.
  The file is written by the last statement only.\<close>

definition update_dependencies_json :: "json_file \<Rightarrow> string \<Rightarrow> json \<Rightarrow> error + json_file" where
  "update_dependencies_json deps_file dep_name dep_entry =
     bind_err (load_json_file deps_file) (\<lambda>deps_data.
     bind_err (py_contains deps_data ''dependencies'') (\<lambda>c1.
     bind_err (if \<not> c1 then py_setitem deps_data ''dependencies'' (JObj []) else Inr deps_data) (\<lambda>d1.
     bind_err (py_contains d1 ''version'') (\<lambda>c2.
     bind_err (if \<not> c2 then py_setitem d1 ''version'' (JInt 2130) else Inr d1) (\<lambda>d2.
     bind_err (py_getitem d2 ''dependencies'') (\<lambda>deps.
     bind_err (py_setitem deps dep_name dep_entry) (\<lambda>deps'.
     bind_err (py_setitem d2 ''dependencies'' deps') (\<lambda>d3.
     save_json_file deps_file d3))))))))"

text \<open>The outcome of the block and the manifest file after it: an exception leaves the
  file as it was.\<close>

definition upsert_dependency :: "json_file \<Rightarrow> string \<Rightarrow> json \<Rightarrow> error option \<times> json_file" where
  "upsert_dependency deps_file dep_name dep_entry =
     (case update_dependencies_json deps_file dep_name dep_entry of
        Inl e \<Rightarrow> (Some e, deps_file)
      | Inr f \<Rightarrow> (None, f))"

text \<open>\<^verbatim>\<open>add_dependency\<close> up to the update of the manifest. \<open>project_root\<close> is the result
  of \<^verbatim>\<open>find_project_root\<close>, \<open>repo_exists\<close> the answer of \<^verbatim>\<open>os.path.exists(repo)\<close>. The
  rest of the function writes the environment file of a local dependency, not the
  manifest.\<close>

datatype outcome = NoProject | Raised error | Added

definition url_tag_of :: "string \<Rightarrow> string option" where
  "url_tag_of repo = (if is_github_url repo then snd (parse_github_url repo) else None)"

definition github_path_of :: "string \<Rightarrow> string" where
  "github_path_of repo =
     (if is_github_url repo \<and> truthy (fst (parse_github_url repo))
      then the (fst (parse_github_url repo)) else repo)"

definition add_dependency ::
  "path option \<Rightarrow> bool \<Rightarrow> json_file \<Rightarrow> string \<Rightarrow> string option \<Rightarrow> string option \<Rightarrow>
   string option \<Rightarrow> outcome \<times> json_file" where
  "add_dependency project_root repo_exists deps_file repo name_override tag version =
     (case project_root of
        None \<Rightarrow> (NoProject, deps_file)
      | Some root \<Rightarrow>
          (let github_path = github_path_of repo;
               url_tag = url_tag_of repo;
               dep_name = get_dependency_name repo_exists repo name_override;
               github_repo = is_github_repo repo_exists repo;
               dep_entry = build_entry github_repo github_path tag url_tag version
           in (case upsert_dependency deps_file dep_name dep_entry of
                 (Some e, f) \<Rightarrow> (Raised e, f)
               | (None, f) \<Rightarrow> (Added, f))))"




definition has_field :: "json \<Rightarrow> string \<Rightarrow> bool" where
  "has_field e k = (py_contains e k = Inr True)"


definition foo_entry :: json where
  "foo_entry = JObj [(''github'', JStr ''acme/Foo''), (''tag'', JStr ''2.0.0'')]"

text \<open>The manifest object after the two defaults of the block (the keys \<^verbatim>\<open>dependencies\<close>
  and \<^verbatim>\<open>version\<close> added last when absent), and a release URL.\<close>

definition with_defaults :: "(string \<times> json) list \<Rightarrow> (string \<times> json) list" where
  "with_defaults kvs =
     (let kvs1 = (if ''dependencies'' \<in> fst ` set kvs then kvs
                  else AList.update ''dependencies'' (JObj []) kvs)
      in if ''version'' \<in> fst ` set kvs1 then kvs1 else AList.update ''version'' (JInt 2130) kvs1)"

definition release_url :: string where
  "release_url = ''https://github.com/mesopelagique/SemVer/releases/tag/0.2.0''"

section \<open>Properties of the root locators\<close>

lemma lookup_append: "lookup n (p @ q) = (case lookup n p of None \<Rightarrow> None | Some m \<Rightarrow> lookup m q)"
  by (induction p arbitrary: n) (auto split: option.splits)

lemma lookup_File: "lookup File q = Some m \<Longrightarrow> m = File"
  by (cases q) auto

lemma is_dir_prefix: "is_dir fs (p @ q) \<Longrightarrow> is_dir fs p"
  unfolding is_dir_def lookup_append
  by (auto split: option.splits node.splits dest: lookup_File)

lemma parents_Nil: "parents [] = []" by (simp add: parents_def)

lemma parents_snoc: "parents (q @ [c]) = q # parents q"
  by (simp add: parents_def)

lemma find_root_Nil: "add_dependency_find_project_root fs [] = None"
  by (subst add_dependency_find_project_root.simps) (simp add: parent_def)

lemma find_root_snoc:
  "add_dependency_find_project_root fs (q @ [c]) =
     (if is_dir fs (q @ [c, ''Project'', ''Sources'']) then Some (q @ [c])
      else if c = ''Sources'' \<and> name q = ''Project'' then Some (parent q)
      else if c = ''Project'' \<and> is_dir fs (q @ [c, ''Sources'']) then Some q
      else add_dependency_find_project_root fs q)"
proof -
  have ne: "(q @ [c] \<noteq> q) = True" by simp
  have p: "parent (q @ [c]) = q" by (simp add: parent_def)
  have n: "name (q @ [c]) = c" by (simp add: name_def)
  show ?thesis
    by (subst add_dependency_find_project_root.simps[of fs "q @ [c]"])
       (simp only: ne p n if_True append_assoc append_Cons append_Nil)
qed

lemma project_info_walk_Cons:
  "project_info_walk fs (d # ds) =
     (if project_info_is_root fs d then Some d else project_info_walk fs ds)"
  by (simp add: project_info_is_root_def)

lemma project_info_walk_unique:
  "R \<in> set ds \<Longrightarrow> project_info_is_root fs R \<Longrightarrow>
   (\<forall>d\<in>set ds. project_info_is_root fs d \<longrightarrow> d = R) \<Longrightarrow> project_info_walk fs ds = Some R"
proof (induction ds)
  case Nil
  then show ?case by simp
next
  case (Cons a ds)
  show ?case
  proof (cases "project_info_is_root fs a")
    case True
    then have "R = a" using Cons.prems(3) by simp
    with True show ?thesis by (simp only: project_info_walk_Cons if_True)
  next
    case False
    then have "R \<noteq> a" using Cons.prems(2) by auto
    then have "R \<in> set ds" using Cons.prems(1) by simp
    moreover have "\<forall>d\<in>set ds. project_info_is_root fs d \<longrightarrow> d = R"
      using Cons.prems(3) by simp
    ultimately have "project_info_walk fs ds = Some R"
      using Cons.IH Cons.prems(2) by blast
    with False show ?thesis by (simp only: project_info_walk_Cons if_False)
  qed
qed

lemma add_dependency_unique:
  "is_dir fs P \<Longrightarrow> R \<noteq> [] \<Longrightarrow> R \<in> set (P # parents P) \<Longrightarrow> sources_root fs R \<Longrightarrow>
   (\<forall>d\<in>set (P # parents P). sources_root fs d \<longrightarrow> d = R) \<Longrightarrow>
   add_dependency_find_project_root fs P = Some R"
proof (induction P rule: rev_induct)
  case Nil
  then show ?case by (simp add: parents_Nil)
next
  case (snoc c q)
  have qdir: "is_dir fs q" using snoc.prems(1) by (rule is_dir_prefix)
  have u0: "sources_root fs (q @ [c]) \<longrightarrow> R = q @ [c]"
    using snoc.prems(5) by (auto simp: parents_snoc)
  have u1: "\<forall>d\<in>set (q # parents q). sources_root fs d \<longrightarrow> d = R"
    using snoc.prems(5) by (simp add: parents_snoc)
  show ?case
  proof (cases "is_dir fs (q @ [c, ''Project'', ''Sources''])")
    case True
    then have "R = q @ [c]" using u0 by (simp add: sources_root_def)
    with True show ?thesis by (simp add: find_root_snoc)
  next
    case nosrc: False
    show ?thesis
    proof (cases "c = ''Sources'' \<and> name q = ''Project''")
      case True
      then have "q \<noteq> []" by (auto simp: name_def)
      then obtain r where r: "q = r @ [''Project'']"
        using True by (cases q rule: rev_cases) (auto simp: name_def)
      have "sources_root fs r" using snoc.prems(1) True r by (simp add: sources_root_def)
      moreover have "r \<in> set (q # parents q)" by (simp add: r parents_snoc)
      ultimately have "R = r" using u1 by blast
      then have "parent q = R" using r by (simp add: parent_def)
      then show ?thesis using True nosrc by (simp add: find_root_snoc)
    next
      case nov2: False
      show ?thesis
      proof (cases "c = ''Project'' \<and> is_dir fs (q @ [c, ''Sources''])")
        case True
        then have "sources_root fs q" by (auto simp: sources_root_def)
        then have "R = q" using u1 by simp
        then show ?thesis using True nosrc nov2 by (auto simp: find_root_snoc)
      next
        case nov3: False
        have "R \<noteq> q @ [c]" using nosrc snoc.prems(4) by (auto simp: sources_root_def)
        then have Rin: "R \<in> set (q # parents q)"
          using snoc.prems(3) by (simp add: parents_snoc)
        have rec: "add_dependency_find_project_root fs q = Some R"
          using snoc.IH[OF qdir snoc.prems(2) Rin snoc.prems(4) u1] .
        show ?thesis by (simp only: find_root_snoc nosrc nov2 nov3 if_False rec)
      qed
    qed
  qed
qed

text \<open>
  What the two locators do with exactly one qualifying ancestor \<open>R\<close> of the start path:
  project\_info.py returns \<open>R\<close> from every start path (a file starts from its directory);
  add\_dependency.py returns the one ancestor \<open>R\<close> holding \<^verbatim>\<open>Project/Sources\<close> from every
  directory at or below it, as long as \<open>R\<close> is not the filesystem root.
\<close>

lemma locators_return_unique_root:
  "(R \<in> set (ancestors (project_info_start fs P)) \<and> project_info_is_root fs R \<and>
    (\<forall>d\<in>set (ancestors (project_info_start fs P)). project_info_is_root fs d \<longrightarrow> d = R)
      \<longrightarrow> project_info_find_project_root fs P = Some R) \<and>
   (is_dir fs P \<and> R \<noteq> [] \<and> R \<in> set (ancestors P) \<and> sources_root fs R \<and>
    (\<forall>d\<in>set (ancestors P). sources_root fs d \<longrightarrow> d = R)
      \<longrightarrow> add_dependency_find_project_root fs P = Some R)"
proof (intro conjI impI)
  assume "R \<in> set (ancestors (project_info_start fs P)) \<and> project_info_is_root fs R \<and>
    (\<forall>d\<in>set (ancestors (project_info_start fs P)). project_info_is_root fs d \<longrightarrow> d = R)"
  then show "project_info_find_project_root fs P = Some R"
    unfolding project_info_find_project_root_def Let_def ancestors_def
    using project_info_walk_unique by blast
next
  assume "is_dir fs P \<and> R \<noteq> [] \<and> R \<in> set (ancestors P) \<and> sources_root fs R \<and>
    (\<forall>d\<in>set (ancestors P). sources_root fs d \<longrightarrow> d = R)"
  then show "add_dependency_find_project_root fs P = Some R"
    unfolding ancestors_def using add_dependency_unique by blast
qed

text \<open>
  C1. From every start path with exactly one qualifying ancestor \<open>R\<close>, the locator returns
  \<open>R\<close>, whatever the depth of the start path below \<open>R\<close>. In \<open>root_project_deep_tree\<close> the
  one qualifying ancestor of \<^verbatim>\<open>/work/notes\<close> and of \<^verbatim>\<open>/work\<close> is the filesystem root,
  under the test of add\_dependency.py as under that of project\_info.py. The locator of
  project\_info.py returns it from both depths; the locator of add\_dependency.py returns
  nothing from either, though it finds the same project from every depth when the project
  is at \<^verbatim>\<open>/home/app\<close>.
\<close>

theorem locate_root_misses_project_at_root:
  "filter (add_dependency_is_root root_project_deep_tree) (ancestors [''work'', ''notes'']) = [[]] \<and>
   filter (project_info_is_root root_project_deep_tree) (ancestors [''work'', ''notes'']) = [[]] \<and>
   add_dependency_find_project_root root_project_deep_tree [''work'', ''notes''] = None \<and>
   add_dependency_find_project_root root_project_deep_tree [''work''] = None \<and>
   project_info_find_project_root root_project_deep_tree [''work'', ''notes''] = Some [] \<and>
   project_info_find_project_root root_project_deep_tree [''work''] = Some [] \<and>
   map (add_dependency_find_project_root project_tree)
     (ancestors [''home'', ''app'', ''Project'', ''Sources'', ''Methods''])
     = [Some [''home'', ''app''], Some [''home'', ''app''], Some [''home'', ''app''],
        Some [''home'', ''app''], None, None]"
  by code_simp

text \<open>
  C2. The locator reports not-found exactly when no ancestor qualifies, the filesystem root
  included. add\_dependency.py leaves its loop when it reaches the filesystem root, without
  testing it: with a project at the root it finds nothing, from \<^verbatim>\<open>/sub\<close> and from
  the root itself, where project\_info.py and clean.py return the root.
\<close>

theorem find_project_root_skips_filesystem_root:
  "add_dependency_is_root root_project_tree [] \<and>
   add_dependency_find_project_root root_project_tree [''sub''] = None \<and>
   add_dependency_find_project_root root_project_tree [] = None \<and>
   project_info_find_project_root root_project_tree [''sub''] = Some [] \<and>
   clean_find_project_root root_project_tree [''sub''] = Inr []"
  by code_simp

lemma has_4DProject_entry_iff:
  "has_4DProject_entry xs \<longleftrightarrow> 1 \<le> length (filter (\<lambda>f. suffix f = ''.4DProject'') xs)"
  by (induction xs) auto

lemma has_4DProject_file_iff:
  "has_4DProject_file fs D xs \<longleftrightarrow> 1 \<le> length (filter (\<lambda>f. is_file fs (D @ [f])) xs)"
  by (induction xs) auto

lemma project_info_walk_is_root:
  "project_info_walk fs ds = Some r \<Longrightarrow> project_info_is_root fs r"
  by (induction ds) (simp_all add: project_info_walk_Cons split: if_splits del: project_info_walk.simps(2))

lemma is_dir_not_is_file: "is_dir fs p \<Longrightarrow> \<not> is_file fs p"
  by (auto simp: is_dir_def is_file_def split: option.splits node.splits)

lemma parents_shorter: "e \<in> set (parents p) \<Longrightarrow> length e < length p"
  by (auto simp: parents_def)

lemma clean_walk_result:
  "clean_walk fs ds = Inr r \<Longrightarrow> \<exists>e\<in>set ds. r = e \<or> r = parent e"
  by (induction ds) (auto split: if_splits)

lemma project_info_returns_start_iff:
  "project_info_find_project_root fs d = Some d \<longleftrightarrow> project_info_is_root fs d"
proof
  assume "project_info_find_project_root fs d = Some d"
  then show "project_info_is_root fs d"
    unfolding project_info_find_project_root_def Let_def by (rule project_info_walk_is_root)
next
  assume r: "project_info_is_root fs d"
  then have "is_dir fs d" unfolding project_info_is_root_def using is_dir_prefix by blast
  then have "project_info_start fs d = d"
    by (simp add: project_info_start_def is_dir_not_is_file)
  then show "project_info_find_project_root fs d = Some d"
    unfolding project_info_find_project_root_def Let_def
    using r by (simp only: project_info_walk_Cons if_True)
qed

lemma clean_returns_start_iff:
  "clean_find_project_root fs d = Inr d \<longleftrightarrow>
     is_dir fs (d @ [''Project'']) \<and>
     has_4DProject_file fs (d @ [''Project'']) (glob_star fs (d @ [''Project'']) ''.4DProject'')"
  (is "?L \<longleftrightarrow> ?A")
proof (cases ?A)
  case True
  then show ?thesis by (simp add: clean_find_project_root_def)
next
  case noA: False
  have "clean_find_project_root fs d \<noteq> Inr d"
  proof (cases "name d = ''Project'' \<and> has_4DProject_file fs d (glob_star fs d ''.4DProject'')")
    case True
    then have "d \<noteq> []" by (auto simp: name_def)
    then have "parent d \<noteq> d" by (cases d rule: rev_cases) (auto simp: parent_def)
    with True noA show ?thesis by (auto simp: clean_find_project_root_def)
  next
    case noB: False
    have "clean_walk fs (parents d) \<noteq> Inr d"
    proof
      assume "clean_walk fs (parents d) = Inr d"
      then obtain e where e: "e \<in> set (parents d)" "d = e \<or> d = parent e"
        using clean_walk_result by blast
      have "length (parent e) \<le> length e" by (simp add: parent_def)
      with e parents_shorter[OF e(1)] show False by auto
    qed
    with noA noB show ?thesis by (auto simp: clean_find_project_root_def)
  qed
  with noA show ?thesis by simp
qed

text \<open>
  C3 (as the code has it). Started at a directory \<open>d\<close>, the locators of project\_info.py and
  clean.py return \<open>d\<close> itself exactly when \<^verbatim>\<open>d/Project\<close> is a directory holding one
  or more entries with the extension \<^verbatim>\<open>.4DProject\<close> (any entry for project\_info.py, a
  regular file for clean.py): the count is not required to be exactly one.
\<close>

theorem root_test_needs_one_or_more_4DProject:
  "(project_info_find_project_root fs d = Some d \<longleftrightarrow>
      is_dir fs (d @ [''Project'']) \<and>
      1 \<le> length (filter (\<lambda>f. suffix f = ''.4DProject'') (iterdir fs (d @ [''Project''])))) \<and>
   (clean_find_project_root fs d = Inr d \<longleftrightarrow>
      is_dir fs (d @ [''Project'']) \<and>
      1 \<le> length (filter (\<lambda>f. is_file fs (d @ [''Project'', f]))
                     (glob_star fs (d @ [''Project'']) ''.4DProject'')))"
  by (simp add: project_info_returns_start_iff project_info_is_root_def has_4DProject_entry_iff
        clean_returns_start_iff has_4DProject_file_iff)

theorem root_test_needs_one_or_more_4DProject_witness:
  "project_info_find_project_root project_tree [''home'', ''app''] = Some [''home'', ''app''] \<and>
   clean_find_project_root project_tree [''home'', ''app''] = Inr [''home'', ''app''] \<and>
   project_info_find_project_root stray_sources_tree [''w''] \<noteq> Some [''w''] \<and>
   clean_find_project_root stray_sources_tree [''w''] \<noteq> Inr [''w'']"
proof -
  have a: "is_dir project_tree ([''home'', ''app''] @ [''Project'']) \<and>
      1 \<le> length (filter (\<lambda>f. suffix f = ''.4DProject'') (iterdir project_tree ([''home'', ''app''] @ [''Project''])))"
    by code_simp
  have b: "is_dir project_tree ([''home'', ''app''] @ [''Project'']) \<and>
      1 \<le> length (filter (\<lambda>f. is_file project_tree ([''home'', ''app''] @ [''Project'', f]))
                     (glob_star project_tree ([''home'', ''app''] @ [''Project'']) ''.4DProject''))"
    by code_simp
  have c: "\<not> 1 \<le> length (filter (\<lambda>f. suffix f = ''.4DProject'') (iterdir stray_sources_tree ([''w''] @ [''Project''])))"
    by code_simp
  have d: "\<not> 1 \<le> length (filter (\<lambda>f. is_file stray_sources_tree ([''w''] @ [''Project'', f]))
                     (glob_star stray_sources_tree ([''w''] @ [''Project'']) ''.4DProject''))"
    by code_simp
  from root_test_needs_one_or_more_4DProject[of project_tree "[''home'', ''app'']"]
       root_test_needs_one_or_more_4DProject[of stray_sources_tree "[''w'']"] a b c d
  show ?thesis by blast
qed

text \<open>
  C3 as stated fails: a \<^verbatim>\<open>Project\<close> folder with two \<^verbatim>\<open>.4DProject\<close> files makes its
  directory qualify, for both locators.
\<close>

theorem two_4DProject_files_counterexample:
  "length (filter (\<lambda>f. suffix f = ''.4DProject'') (iterdir two_markers_tree [''w'', ''Project''])) = 2 \<and>
   project_info_find_project_root two_markers_tree [''w''] = Some [''w''] \<and>
   clean_find_project_root two_markers_tree [''w''] = Inr [''w'']"
  by code_simp

section \<open>Properties of the source tree walker\<close>

lemma project_info_not_found_iff:
  "project_info_find_project_root fs P = None \<longleftrightarrow>
     list_all (\<lambda>d. \<not> project_info_is_root fs d) (ancestors (project_info_start fs P))"
proof -
  have w: "project_info_walk fs ds = None \<longleftrightarrow> list_all (\<lambda>d. \<not> project_info_is_root fs d) ds" for ds
    by (induction ds) (simp_all add: project_info_walk_Cons del: project_info_walk.simps(2))
  show ?thesis
    unfolding project_info_find_project_root_def ancestors_def Let_def by (rule w)
qed

lemma sorted_enumerations:
  "sorted (method_files fs root) \<and> sorted (class_files fs root) \<and>
   (case analyze_forms fs sd of Inl e \<Rightarrow> True | Inr forms \<Rightarrow> sorted (map form_name forms))"
proof -
  have f: "form_name (form_entry fs p) = name p" for p
    by (simp add: form_entry_def Let_def)
  show ?thesis
    by (simp add: method_files_def class_files_def analyze_forms_def Let_def f o_def name_def sorted_wrt_filter)
qed

text \<open>
  C9. The walker enumerates in lexicographic order of the file names in every category. The
  method files, the class files and the forms are sorted (\<open>sorted_enumerations\<close>); the
  database methods and the method files of a form are returned in listing order, which in
  \<open>walker_tree\<close> is not sorted.
\<close>

theorem unsorted_enumerations:
  "db_methods walker_tree [''app''] = [''onStartup'', ''onExit''] \<and>
   \<not> sorted (db_methods walker_tree [''app'']) \<and>
   analyze_forms walker_tree (sources_dir_of [''app'']) =
     Inr [\<lparr>form_name = ''Main'', has_form_file = True, form_methods = Some [''b'', ''a'']\<rparr>] \<and>
   \<not> sorted [''b'', ''a''] \<and>
   method_files walker_tree [''app''] = [''a.4dm'', ''z.4dm'']"
  by code_simp

section \<open>Properties of the declaration extractor\<close>












lemma first_Lit:
  "length w' = length w \<Longrightarrow> lit_eq ic w' w \<Longrightarrow> first_match ic (Lit w) (w' @ rest, c) = Some (rest, c)"
  by (simp add: first_match_def)

lemma first_Lit_None:
  "w \<noteq> [] \<Longrightarrow> s = [] \<or> ascii_lower (hd s) \<noteq> ascii_lower (hd w) \<Longrightarrow>
   first_match True (Lit w) (s, c) = None"
proof -
  assume w: "w \<noteq> []" and d: "s = [] \<or> ascii_lower (hd s) \<noteq> ascii_lower (hd w)"
  have "\<not> (length w \<le> length s \<and> lit_eq True (take (length w) s) w)"
  proof
    assume a: "length w \<le> length s \<and> lit_eq True (take (length w) s) w"
    then have s: "s \<noteq> []" using w by auto
    from a have "map ascii_lower (take (length w) s) = map ascii_lower w" by (simp add: lit_eq_def)
    then have "hd (map ascii_lower (take (length w) s)) = hd (map ascii_lower w)" by simp
    moreover have "take (length w) s \<noteq> []" using s w by simp
    ultimately have "ascii_lower (hd (take (length w) s)) = ascii_lower (hd w)"
      using w by (simp add: hd_map)
    moreover have "hd (take (length w) s) = hd s" using w by (cases s; cases w) auto
    ultimately show False using d s by simp
  qed
  then show ?thesis by (simp add: first_match_def)
qed

lemma first_Rep_greedy:
  "list_all p ws \<Longrightarrow> rest = [] \<or> \<not> p (hd rest) \<Longrightarrow> lo \<le> length ws \<Longrightarrow>
   first_match ic (Rep p lo True) (ws @ rest, c) = Some (rest, c)"
proof -
  assume a: "list_all p ws" "rest = [] \<or> \<not> p (hd rest)" "lo \<le> length ws"
  have t: "takeWhile p (ws @ rest) = ws"
  proof (cases rest)
    case Nil
    then show ?thesis using a(1) by (simp add: list_all_iff)
  next
    case (Cons x xs)
    then show ?thesis using a(1,2) by (simp add: list_all_iff takeWhile_append2)
  qed
  have "rev [lo..<Suc (length ws)] = length ws # rev [lo..<length ws]" using a(3) by simp
  then show ?thesis by (simp add: first_match_def t Let_def del: upt_Suc)
qed

lemma first_Cls: "p x \<Longrightarrow> first_match ic (Cls p) (x # xs, c) = Some (xs, c)"
  by (simp add: first_match_def)

lemma first_Seq:
  "first_match ic r1 st = Some e1 \<Longrightarrow> first_match ic r2 e1 = Some e2 \<Longrightarrow>
   first_match ic (Seq r1 r2) st = Some e2"
  by (auto simp: first_match_def split: list.splits)

lemma first_Seq_None: "first_match ic r1 st = None \<Longrightarrow> first_match ic (Seq r1 r2) st = None"
  by (auto simp: first_match_def split: list.splits)

lemma first_Opt_Some: "first_match ic r st = Some e \<Longrightarrow> first_match ic (Opt r) st = Some e"
  by (auto simp: first_match_def split: list.splits)

lemma first_Opt_None: "first_match ic r st = None \<Longrightarrow> first_match ic (Opt r) st = Some st"
  by (auto simp: first_match_def split: list.splits)

lemma first_Grp:
  "first_match ic r st = Some e \<Longrightarrow>
   first_match ic (Grp i r) st = Some (fst e, (i, take (length (fst st) - length (fst e)) (fst st)) # snd e)"
  by (auto simp: first_match_def split: list.splits)

lemma first_Grp_None: "first_match ic r st = None \<Longrightarrow> first_match ic (Grp i r) st = None"
  by (auto simp: first_match_def split: list.splits)

lemma space_lower: "is_space c \<Longrightarrow> ascii_lower c = c"
  by (auto simp: is_space_def ascii_lower_def Let_def)

lemma word_not_space: "is_word c \<Longrightarrow> \<not> is_space c"
  by (auto simp: is_space_def is_word_def Let_def)

lemma word_or_dot_not_space: "word_or_dot c \<Longrightarrow> \<not> is_space c"
proof -
  have "\<not> is_space CHR ''.''" by code_simp
  then show "word_or_dot c \<Longrightarrow> \<not> is_space c" by (auto simp: word_or_dot_def word_not_space)
qed

lemma strip_id: "L \<noteq> [] \<Longrightarrow> \<not> is_space (hd L) \<Longrightarrow> \<not> is_space (last L) \<Longrightarrow> strip L = L"
proof -
  assume a: "L \<noteq> []" "\<not> is_space (hd L)" "\<not> is_space (last L)"
  have 1: "dropWhile is_space L = L" using a(1,2) by (cases L) auto
  obtain ys y where L: "L = ys @ [y]" using a(1) by (cases L rule: rev_cases) auto
  then have "\<not> is_space y" using a(3) by simp
  then have 2: "dropWhile is_space (rev L) = rev L" by (simp add: L)
  show ?thesis by (simp add: strip_def 1 2)
qed

lemma lower_not_space: "ascii_lower c = x \<Longrightarrow> \<not> is_space x \<Longrightarrow> \<not> is_space c"
  using space_lower by auto

lemma modifier_hd: "modifier kw t \<Longrightarrow> kw \<noteq> [] \<Longrightarrow> t \<noteq> [] \<and> ascii_lower (hd t) = hd kw"
proof -
  assume m: "modifier kw t" and k: "kw \<noteq> []"
  then have t: "t \<noteq> []" by (auto simp: modifier_def)
  from m have "map ascii_lower (take (length kw) t) = kw" by (simp add: modifier_def)
  then have "hd (map ascii_lower (take (length kw) t)) = hd kw" by simp
  moreover have "take (length kw) t \<noteq> []" using t k by simp
  moreover have "hd (take (length kw) t) = hd t" using k by (cases t; cases kw) auto
  ultimately show ?thesis using t by (simp add: hd_map)
qed

lemma first_modifier_present:
  assumes m: "modifier kw t" and l: "map ascii_lower kw = kw"
    and r: "rest \<noteq> []" "\<not> is_space (hd rest)"
  shows "first_match True (Opt (Grp i (Seq (Lit kw) (Rep is_space 1 True)))) (t @ rest, c)
         = Some (rest, (i, t) # c)"
proof -
  let ?k = "length kw"
  have len: "length (take ?k t) = ?k" using m by (simp add: modifier_def)
  have eq: "lit_eq True (take ?k t) kw" using m l by (simp add: modifier_def lit_eq_def)
  have split: "t @ rest = take ?k t @ (drop ?k t @ rest)" by simp
  have 1: "first_match True (Lit kw) (t @ rest, c) = Some (drop ?k t @ rest, c)"
    by (subst split) (rule first_Lit[OF len eq])
  have sp: "list_all is_space (drop ?k t)" "1 \<le> length (drop ?k t)"
    using m by (auto simp: modifier_def)
  have 2: "first_match True (Rep is_space 1 True) (drop ?k t @ rest, c) = Some (rest, c)"
    using first_Rep_greedy[OF sp(1) _ sp(2)] r by blast
  have 3: "first_match True (Seq (Lit kw) (Rep is_space 1 True)) (t @ rest, c) = Some (rest, c)"
    using first_Seq[OF 1 2] .
  have "first_match True (Grp i (Seq (Lit kw) (Rep is_space 1 True))) (t @ rest, c)
        = Some (rest, (i, t) # c)"
    using first_Grp[OF 3, of i] by simp
  then show ?thesis by (rule first_Opt_Some)
qed

lemma first_modifier_absent:
  assumes "kw \<noteq> []" "rest = [] \<or> ascii_lower (hd rest) \<noteq> ascii_lower (hd kw)"
  shows "first_match True (Opt (Grp i (Seq (Lit kw) r))) (rest, c) = Some (rest, c)"
  by (intro first_Opt_None first_Grp_None first_Seq_None first_Lit_None assms)

lemma function_tail:
  assumes F: "map ascii_lower F = ''function''" and W: "W \<noteq> []" "list_all is_space W"
    and n: "is_word n" and N: "list_all word_or_dot N"
  shows "first_match True
           (Seq (Lit ''Function'') (Seq (Rep is_space 1 True)
              (Grp 3 (Seq (Cls is_word) (Rep word_or_dot 0 True)))))
           (F @ W @ n # N, c) = Some ([], (3, n # N) # c)"
proof -
  have "length (map ascii_lower F) = 8" by (simp add: F)
  then have lenF: "length F = length ''Function''" by simp
  have "map ascii_lower ''Function'' = ''function''" by code_simp
  then have eq: "lit_eq True F ''Function''" using F by (simp add: lit_eq_def)
  have 1: "first_match True (Lit ''Function'') (F @ W @ n # N, c) = Some (W @ n # N, c)"
    by (rule first_Lit[OF lenF eq])
  have "1 \<le> length W" using W(1) by (cases W) auto
  then have 2: "first_match True (Rep is_space 1 True) (W @ n # N, c) = Some (n # N, c)"
    using first_Rep_greedy[OF W(2), of "n # N" 1] word_not_space[OF n] by simp
  have 3: "first_match True (Cls is_word) (n # N, c) = Some (N, c)"
    using n by (rule first_Cls[of is_word n])
  have 4: "first_match True (Rep word_or_dot 0 True) (N, c) = Some ([], c)"
    using first_Rep_greedy[OF N, of "[]" 0] by simp
  have "first_match True (Grp 3 (Seq (Cls is_word) (Rep word_or_dot 0 True))) (n # N, c)
        = Some ([], (3, n # N) # c)"
    using first_Grp[OF first_Seq[OF 3 4], of 3] by simp
  then show ?thesis using first_Seq[OF 1 first_Seq[OF 2]] by blast
qed

lemma lower_consts:
  "ascii_lower CHR ''e'' = CHR ''e''" "ascii_lower CHR ''s'' = CHR ''s''"
  "ascii_lower CHR ''C'' = CHR ''c''" "ascii_lower CHR ''p'' = CHR ''p''"
  "map ascii_lower ''exposed'' = ''exposed''" "map ascii_lower ''shared'' = ''shared''"
  "\<not> is_space CHR ''e''" "\<not> is_space CHR ''s''" "\<not> is_space CHR ''f''"
  by code_simp+

lemma function_line_match:
  assumes E: "E = [] \<or> modifier ''exposed'' E" and S: "S = [] \<or> modifier ''shared'' S"
    and F: "map ascii_lower F = ''function''" and W: "W \<noteq> []" "list_all is_space W"
    and n: "is_word n" and N: "list_all word_or_dot N"
  shows "re_match True function_re (E @ S @ F @ W @ n # N) =
           Some ((3, n # N) # (if S = [] then [] else [(2, S)]) @ (if E = [] then [] else [(1, E)]))"
    and "ascii_lower (hd (E @ S @ F @ W @ n # N)) \<in> {CHR ''e'', CHR ''s'', CHR ''f''}"
proof -
  let ?T = "F @ W @ n # N"
  let ?tail = "Seq (Lit ''Function'') (Seq (Rep is_space 1 True)
              (Grp 3 (Seq (Cls is_word) (Rep word_or_dot 0 True))))"
  let ?G1 = "Opt (Grp 1 (Seq (Lit ''exposed'') (Rep is_space 1 True)))"
  let ?G2 = "Opt (Grp 2 (Seq (Lit ''shared'') (Rep is_space 1 True)))"
  obtain f0 F' where F0: "F = f0 # F'" using F by (cases F) auto
  then have f0: "ascii_lower f0 = CHR ''f''" using F by simp
  have hT: "hd ?T = f0" by (simp add: F0)
  have T_ne: "?T \<noteq> []" by (simp add: F0)
  have T_ns: "\<not> is_space (hd ?T)"
    unfolding hT using lower_not_space[OF f0] lower_consts by blast
  have tail: "first_match True ?tail (?T, c) = Some ([], (3, n # N) # c)" for c
    by (rule function_tail[OF F W n N])
  have shared: "first_match True (Seq ?G2 ?tail) (S @ ?T, c) =
      Some ([], (3, n # N) # (if S = [] then [] else [(2, S)]) @ c)" for c
  proof (cases "S = []")
    case True
    have "first_match True ?G2 (?T, c) = Some (?T, c)"
      by (rule first_modifier_absent) (simp_all add: hT f0 lower_consts)
    then show ?thesis using first_Seq tail True by simp
  next
    case False
    then have m: "modifier ''shared'' S" using S by simp
    have "first_match True ?G2 (S @ ?T, c) = Some (?T, (2, S) # c)"
      by (rule first_modifier_present[OF m lower_consts(6) T_ne T_ns])
    then show ?thesis using first_Seq tail False by simp
  qed
  have hS: "ascii_lower (hd (S @ ?T)) \<in> {CHR ''s'', CHR ''f''}"
  proof (cases "S = []")
    case True
    then show ?thesis using hT f0 by simp
  next
    case False
    then have "modifier ''shared'' S" using S by simp
    then have "S \<noteq> [] \<and> ascii_lower (hd S) = hd ''shared''" by (rule modifier_hd) simp
    then show ?thesis by simp
  qed
  have ST_ne: "S @ ?T \<noteq> []" using T_ne by simp
  have ST_ns: "\<not> is_space (hd (S @ ?T))"
    using hS lower_not_space lower_consts by blast
  have whole: "first_match True (Seq ?G1 (Seq ?G2 ?tail)) (E @ S @ ?T, []) =
      Some ([], (3, n # N) # (if S = [] then [] else [(2, S)]) @ (if E = [] then [] else [(1, E)]))"
  proof (cases "E = []")
    case True
    have "ascii_lower (hd (S @ ?T)) \<noteq> ascii_lower (hd ''exposed'')"
      using hS by (auto simp: lower_consts)
    then have "first_match True ?G1 (S @ ?T, []) = Some (S @ ?T, [])"
      by (intro first_modifier_absent) simp_all
    then show ?thesis using first_Seq shared True by simp
  next
    case False
    then have m: "modifier ''exposed'' E" using E by simp
    have "first_match True ?G1 (E @ S @ ?T, []) = Some (S @ ?T, [(1, E)])"
      by (rule first_modifier_present[OF m lower_consts(5) ST_ne ST_ns])
    then show ?thesis using first_Seq shared False by simp
  qed
  have re: "function_re = Seq ?G1 (Seq ?G2 ?tail)" by (simp add: function_re_def)
  show "re_match True function_re (E @ S @ F @ W @ n # N) =
           Some ((3, n # N) # (if S = [] then [] else [(2, S)]) @ (if E = [] then [] else [(1, E)]))"
    unfolding re re_match_def using whole by simp
  show "ascii_lower (hd (E @ S @ F @ W @ n # N)) \<in> {CHR ''e'', CHR ''s'', CHR ''f''}"
  proof (cases "E = []")
    case True
    then show ?thesis using hS by auto
  next
    case False
    then have "modifier ''exposed'' E" using E by simp
    then have "E \<noteq> [] \<and> ascii_lower (hd E) = hd ''exposed''" by (rule modifier_hd) simp
    then show ?thesis by simp
  qed
qed

lemma other_patterns_fail:
  assumes "L \<noteq> []" "ascii_lower (hd L) \<in> {CHR ''e'', CHR ''s'', CHR ''f''}"
  shows "re_match True class_extends_re L = None" "re_match True property_re L = None"
proof -
  have c: "ascii_lower (hd L) \<noteq> ascii_lower CHR ''C''"
    using assms(2) by (auto simp: lower_consts)
  have p: "ascii_lower (hd L) \<noteq> ascii_lower CHR ''p''"
    using assms(2) by (auto simp: lower_consts)
  have "first_match True (Seq (Lit ''Class'') r) (L, []) = None" for r
    using c by (intro first_Seq_None first_Lit_None) simp_all
  then show "re_match True class_extends_re L = None"
    by (simp add: class_extends_re_def re_match_def)
  have "first_match True (Seq (Lit ''property'') r) (L, []) = None" for r
    using p by (intro first_Seq_None first_Lit_None) simp_all
  then show "re_match True property_re L = None"
    by (simp add: property_re_def re_match_def)
qed

text \<open>
  C4 (as the code has it). A line made of an optional \<^verbatim>\<open>exposed\<close>, then an optional
  \<^verbatim>\<open>shared\<close>, in this order, then \<^verbatim>\<open>Function\<close>, whitespace and a name of word
  characters and dots (keywords in any case) is recognized: \<^verbatim>\<open>analyze_class\<close> appends
  to \<open>functions\<close> the name with the modifiers present before it, and changes nothing
  else.
\<close>

theorem function_line_recognized:
  assumes E: "E = [] \<or> modifier ''exposed'' E" and S: "S = [] \<or> modifier ''shared'' S"
    and F: "map ascii_lower F = ''function''" and W: "W \<noteq> []" "list_all is_space W"
    and n: "is_word n" and N: "list_all word_or_dot N"
  shows "class_line (E @ S @ F @ W @ n # N) acc =
           Inr (acc\<lparr>class_functions := class_functions acc @
             [(if E = [] then [] else ''exposed '') @ (if S = [] then [] else ''shared '') @ n # N]\<rparr>)"
proof -
  let ?L = "E @ S @ F @ W @ n # N"
  note m = function_line_match[OF E S F W n N]
  have ne: "?L \<noteq> []" by simp
  have "\<not> is_space CHR ''e''" "\<not> is_space CHR ''s''" "\<not> is_space CHR ''f''"
    by (rule lower_consts)+
  then have h: "\<not> is_space (hd ?L)" using m(2) lower_not_space by blast
  have "\<not> is_space (last (n # N))"
  proof (cases "N = []")
    case True
    then show ?thesis using word_not_space[OF n] by simp
  next
    case False
    then have "last N \<in> set N" by simp
    then have "word_or_dot (last N)" using N by (simp add: list_all_iff)
    then show ?thesis using False word_or_dot_not_space by simp
  qed
  then have l: "\<not> is_space (last ?L)" by simp
  have s: "strip ?L = ?L" by (rule strip_id[OF ne h l])
  note o = other_patterns_fail[OF ne m(2)]
  have e1: "E \<noteq> [] \<Longrightarrow> truthy (Some E)" by (simp add: truthy_def)
  have s1: "S \<noteq> [] \<Longrightarrow> truthy (Some S)" by (simp add: truthy_def)
  have f: "function_test ?L acc =
      acc\<lparr>class_functions := class_functions acc @
        [(if E = [] then [] else ''exposed '') @ (if S = [] then [] else ''shared '') @ n # N]\<rparr>"
    unfolding function_test_def m(1)
    by (cases "E = []"; cases "S = []") (simp_all add: group_def truthy_def)
  have x: "extends_test ?L acc = Inr acc" by (simp only: extends_test_def o option.case)
  have y: "property_test ?L acc = Inr acc" by (simp only: property_test_def o option.case)
  show ?thesis by (simp only: class_line_def s class_stripped_def x y f sum.case)
qed

theorem function_line_recognized_witness:
  "class_line ''exposed Shared  FUNCTION get.x'' (empty_class ''C'' 1) =
     Inr ((empty_class ''C'' 1)\<lparr>class_functions := [''exposed shared get.x'']\<rparr>)"
proof -
  have h1: "''exposed '' = [] \<or> modifier ''exposed'' ''exposed ''" by code_simp
  have h2: "''Shared  '' = [] \<or> modifier ''shared'' ''Shared  ''" by code_simp
  have h3: "map ascii_lower ''FUNCTION'' = ''function''" by code_simp
  have h4: "'' '' \<noteq> []" by simp
  have h5: "list_all is_space '' ''" by code_simp
  have h6: "is_word CHR ''g''" by code_simp
  have h7: "list_all word_or_dot ''et.x''" by code_simp
  have "class_functions (empty_class ''C'' 1) = []" by (simp add: empty_class_def)
  with function_line_recognized[OF h1 h2 h3 h4 h5 h6 h7, of "empty_class ''C'' 1"]
  show ?thesis by simp
qed

text \<open>
  C4 as stated fails: the pattern takes the modifiers in one order only, and a line that
  begins \<^verbatim>\<open>shared exposed Function f\<close> is not recognized, where
  \<^verbatim>\<open>exposed shared Function f\<close> is.
\<close>

theorem shared_exposed_order_counterexample:
  "class_line ''shared exposed Function f'' (empty_class ''C'' 1) = Inr (empty_class ''C'' 1) \<and>
   class_line ''exposed shared Function f'' (empty_class ''C'' 1) =
     Inr ((empty_class ''C'' 1)\<lparr>class_functions := [''exposed shared f'']\<rparr>)"
  by code_simp

section \<open>Properties of the dependency manifest\<close>

lemma bind_err_simps [simp]: "bind_err (Inl x) f = Inl x" "bind_err (Inr v) f = f v"
  by (simp_all add: bind_err_def)

lemma update_not_object:
  "(\<forall>kvs. d \<noteq> JObj kvs) \<Longrightarrow> load_json_file f = Inr d \<Longrightarrow>
   \<exists>x. update_dependencies_json f N e = Inl x"
  by (cases d) (auto simp: update_dependencies_json_def split: if_splits)

lemma update_object:
  "load_json_file f = Inr (JObj kvs) \<Longrightarrow>
   update_dependencies_json f N e =
     bind_err (py_getitem (JObj (with_defaults kvs)) ''dependencies'') (\<lambda>deps.
     bind_err (py_setitem deps N e) (\<lambda>deps'.
     bind_err (py_setitem (JObj (with_defaults kvs)) ''dependencies'' deps') (\<lambda>d3.
     save_json_file f d3)))"
proof -
  assume l: "load_json_file f = Inr (JObj kvs)"
  show ?thesis
  proof (cases "''dependencies'' \<in> fst ` set kvs")
    case True
    show ?thesis
    proof (cases "''version'' \<in> fst ` set kvs")
      case v: True
      show ?thesis using l True v by (simp add: update_dependencies_json_def with_defaults_def)
    next
      case v: False
      show ?thesis using l True v by (simp add: update_dependencies_json_def with_defaults_def)
    qed
  next
    case False
    show ?thesis
    proof (cases "''version'' \<in> fst ` set kvs")
      case v: True
      show ?thesis using l False v
        by (simp add: update_dependencies_json_def with_defaults_def dom_update)
    next
      case v: False
      show ?thesis using l False v
        by (simp add: update_dependencies_json_def with_defaults_def dom_update)
    qed
  qed
qed

lemma in_keys_iff: "k \<in> fst ` set kvs \<longleftrightarrow> map_of kvs k \<noteq> None"
  by (simp add: map_of_eq_None_iff)

lemma with_defaults_dependencies:
  "map_of (with_defaults kvs) ''dependencies'' =
     Some (case map_of kvs ''dependencies'' of None \<Rightarrow> JObj [] | Some v \<Rightarrow> v)"
  by (auto simp: with_defaults_def Let_def in_keys_iff update_conv' split: option.splits)

lemma with_defaults_version:
  "map_of (with_defaults kvs) ''version'' =
     Some (case map_of kvs ''version'' of None \<Rightarrow> JInt 2130 | Some v \<Rightarrow> v)"
  by (auto simp: with_defaults_def Let_def in_keys_iff update_conv' split: option.splits)


lemma with_defaults_id:
  "''dependencies'' \<in> fst ` set kvs \<Longrightarrow> ''version'' \<in> fst ` set kvs \<Longrightarrow> with_defaults kvs = kvs"
  by (simp add: with_defaults_def)

lemma save_Inr: "save_json_file f d = Inr f' \<Longrightarrow> f' = Holds d"
  by (cases f) auto

lemma update_success:
  assumes "update_dependencies_json f N e = Inr f'"
  shows "\<exists>kvs ds. f' = Holds (JObj kvs) \<and> map_of kvs ''dependencies'' = Some (JObj ds) \<and>
           ''version'' \<in> fst ` set kvs \<and> map_of ds N = Some e"
proof -
  obtain d where d: "load_json_file f = Inr d"
    using assms by (cases f) (auto simp: update_dependencies_json_def)
  obtain kvs0 where k0: "d = JObj kvs0"
    using update_not_object[OF _ d, of N e] assms by auto
  let ?w = "with_defaults kvs0"
  obtain x where x: "map_of ?w ''dependencies'' = Some x"
    by (simp add: with_defaults_dependencies)
  have u: "update_dependencies_json f N e =
      bind_err (py_setitem x N e) (\<lambda>deps'.
        save_json_file f (JObj (AList.update ''dependencies'' deps' ?w)))"
    using d k0 x by (simp add: update_object)
  obtain ds0 where ds0: "x = JObj ds0"
    using u assms by (cases x) auto
  let ?k = "AList.update ''dependencies'' (JObj (AList.update N e ds0)) ?w"
  have "save_json_file f (JObj ?k) = Inr f'" using u ds0 assms by simp
  then have f': "f' = Holds (JObj ?k)" by (rule save_Inr)
  have v: "''version'' \<in> fst ` set ?k"
    by (simp add: dom_update in_keys_iff with_defaults_version)
  have "map_of ?k ''dependencies'' = Some (JObj (AList.update N e ds0))"
    by (simp add: update_conv')
  moreover have "map_of (AList.update N e ds0) N = Some e" by (simp add: update_conv')
  ultimately show ?thesis using f' v by blast
qed

lemma update_again:
  assumes "map_of kvs ''dependencies'' = Some (JObj ds)" "''version'' \<in> fst ` set kvs" "map_of ds N = Some e"
  shows "update_dependencies_json (Holds (JObj kvs)) N e = Inr (Holds (JObj kvs))"
proof -
  have "''dependencies'' \<in> fst ` set kvs" using assms(1) by (simp add: in_keys_iff)
  then have w: "with_defaults kvs = kvs" using assms(2) by (rule with_defaults_id)
  have a: "AList.update N e ds = ds" using assms(3) by (rule update_triv)
  have b: "AList.update ''dependencies'' (JObj ds) kvs = kvs" using assms(1) by (rule update_triv)
  have l: "load_json_file (Holds (JObj kvs)) = Inr (JObj kvs)" by simp
  show ?thesis by (simp add: update_object[OF l] w assms(1) a b)
qed

lemma update_twice:
  "update_dependencies_json f N e = Inr f' \<Longrightarrow> update_dependencies_json f' N e = Inr f'"
  using update_success update_again by blast




lemma build_entry_one_field:
  "\<not> (has_field (build_entry g p t u v) ''tag'' \<and> has_field (build_entry g p t u v) ''version'')"
  by (simp add: build_entry_def has_field_def Let_def)

lemma build_entry_tag:
  "g \<Longrightarrow> truthy (py_or t u) \<Longrightarrow>
   py_getitem (build_entry g p t u v) ''tag'' = Inr (JStr (the (py_or t u))) \<and>
   \<not> has_field (build_entry g p t u v) ''version''"
  by (simp add: build_entry_def has_field_def Let_def)

lemma url_tag_github: "truthy (url_tag_of repo) \<Longrightarrow> is_github_repo ex repo"
  by (simp add: url_tag_of_def is_github_repo_def truthy_def split: if_splits)

lemma py_or_truthy: "truthy u \<Longrightarrow> truthy (py_or t u)"
  by (simp add: py_or_def)

text \<open>
  C6 (as the code has it). On a manifest file whose contents \<^verbatim>\<open>json.load\<close> rejects, the
  update raises the decoding error before anything is written: the file is left exactly as it
  was, for every text, dependency name and entry, and \<^verbatim>\<open>add_dependency\<close> ends with that
  error whatever its arguments.
\<close>

theorem malformed_manifest_raises:
  "upsert_dependency (Malformed t) N e = (Some JSONDecodeError, Malformed t) \<and>
   add_dependency (Some root) repo_exists (Malformed t) repo name_override tag version
     = (Raised JSONDecodeError, Malformed t)"
  by (simp add: add_dependency_def upsert_dependency_def update_dependencies_json_def Let_def)

text \<open>
  C6 as stated fails: on the truncated manifest \<^verbatim>\<open>{\<close> the script fails and writes no fresh
  manifest; only a missing manifest is started from the empty structure.
\<close>

theorem malformed_manifest_counterexample:
  "add_dependency (Some [''app'']) False (Malformed ''{'') ''acme/Foo'' None (Some ''2.0.0'') None
     = (Raised JSONDecodeError, Malformed ''{'') \<and>
   add_dependency (Some [''app'']) False Missing ''acme/Foo'' None (Some ''2.0.0'') None
     = (Added, Holds (JObj [(''dependencies'', JObj [(''Foo'', foo_entry)]), (''version'', JInt 2130)]))"
  by code_simp



text \<open>
  C8. The update is idempotent: for every state of the manifest file, dependency name and
  entry, the file after two identical updates is the file after one, for the update block
  and for \<^verbatim>\<open>add_dependency\<close> called twice with the same arguments.
\<close>

theorem upsert_idempotent:
  "snd (upsert_dependency (snd (upsert_dependency f N e)) N e) = snd (upsert_dependency f N e) \<and>
   snd (add_dependency project_root repo_exists
          (snd (add_dependency project_root repo_exists f repo name_override tag version))
          repo name_override tag version)
     = snd (add_dependency project_root repo_exists f repo name_override tag version)"
proof -
  have u: "snd (upsert_dependency (snd (upsert_dependency g M x)) M x) = snd (upsert_dependency g M x)"
    for g M x
  proof (cases "update_dependencies_json g M x")
    case (Inl err)
    then show ?thesis by (simp add: upsert_dependency_def)
  next
    case (Inr g')
    then show ?thesis using update_twice[OF Inr] by (simp add: upsert_dependency_def)
  qed
  have s: "snd (case p of (Some err, g) \<Rightarrow> (Raised err, g) | (None, g) \<Rightarrow> (Added, g)) = snd p"
    for p :: "error option \<times> json_file"
    by (cases p) (auto split: option.splits)
  show ?thesis
  proof (cases project_root)
    case None
    then show ?thesis using u by (simp add: add_dependency_def)
  next
    case (Some root)
    then show ?thesis using u by (simp add: add_dependency_def Let_def s)
  qed
qed

text \<open>
  C10. Every entry that \<^verbatim>\<open>add_dependency\<close> writes into the manifest has at most one of the
  fields \<^verbatim>\<open>tag\<close> and \<^verbatim>\<open>version\<close>; when the repository argument is a release URL with a
  tag, the entry has a tag (the one of the command line if given, else the one of the URL) and
  no version, whatever version the caller supplies.
\<close>

theorem entry_has_tag_or_version_not_both:
  "add_dependency project_root repo_exists deps_file repo name_override tag version = (Added, f) \<longrightarrow>
     (\<exists>m deps e. f = Holds m \<and> py_getitem m ''dependencies'' = Inr deps \<and>
        py_getitem deps (get_dependency_name repo_exists repo name_override) = Inr e \<and>
        \<not> (has_field e ''tag'' \<and> has_field e ''version'') \<and>
        (truthy (url_tag_of repo) \<longrightarrow>
           py_getitem e ''tag'' = Inr (JStr (the (py_or tag (url_tag_of repo)))) \<and>
           \<not> has_field e ''version''))"
proof
  assume a: "add_dependency project_root repo_exists deps_file repo name_override tag version = (Added, f)"
  let ?N = "get_dependency_name repo_exists repo name_override"
  let ?e = "build_entry (is_github_repo repo_exists repo) (github_path_of repo) tag (url_tag_of repo) version"
  have "update_dependencies_json deps_file ?N ?e = Inr f"
    using a by (auto simp: add_dependency_def upsert_dependency_def Let_def
                  split: option.splits sum.splits)
  then obtain kvs ds where k: "f = Holds (JObj kvs)" "map_of kvs ''dependencies'' = Some (JObj ds)"
      "map_of ds ?N = Some ?e"
    using update_success by blast
  have 1: "py_getitem (JObj kvs) ''dependencies'' = Inr (JObj ds)" using k(2) by simp
  have 2: "py_getitem (JObj ds) ?N = Inr ?e" using k(3) by simp
  have 3: "\<not> (has_field ?e ''tag'' \<and> has_field ?e ''version'')" by (rule build_entry_one_field)
  have 4: "truthy (url_tag_of repo) \<longrightarrow>
           py_getitem ?e ''tag'' = Inr (JStr (the (py_or tag (url_tag_of repo)))) \<and>
           \<not> has_field ?e ''version''"
    using build_entry_tag url_tag_github py_or_truthy by blast
  show "\<exists>m deps e. f = Holds m \<and> py_getitem m ''dependencies'' = Inr deps \<and>
        py_getitem deps ?N = Inr e \<and>
        \<not> (has_field e ''tag'' \<and> has_field e ''version'') \<and>
        (truthy (url_tag_of repo) \<longrightarrow>
           py_getitem e ''tag'' = Inr (JStr (the (py_or tag (url_tag_of repo)))) \<and>
           \<not> has_field e ''version'')"
    using k(1) 1 2 3 4 by blast
qed

theorem entry_has_tag_or_version_not_both_witness:
  "\<exists>m deps e.
     add_dependency (Some [''app'']) False Missing release_url None None (Some ''1.0.0'') = (Added, Holds m) \<and>
     py_getitem m ''dependencies'' = Inr deps \<and>
     py_getitem deps ''SemVer'' = Inr e \<and>
     py_getitem e ''tag'' = Inr (JStr ''0.2.0'') \<and>
     \<not> has_field e ''version''"
proof -
  let ?m = "JObj [(''dependencies'', JObj [(''SemVer'',
              JObj [(''github'', JStr ''mesopelagique/SemVer''), (''tag'', JStr ''0.2.0'')])]),
            (''version'', JInt 2130)]"
  have h: "add_dependency (Some [''app'']) False Missing release_url None None (Some ''1.0.0'')
      = (Added, Holds ?m)" by code_simp
  have n: "get_dependency_name False release_url None = ''SemVer''" by code_simp
  have t: "truthy (url_tag_of release_url)" by code_simp
  have o: "the (py_or None (url_tag_of release_url)) = ''0.2.0''" by code_simp
  have "\<exists>m deps e. Holds ?m = Holds m \<and> py_getitem m ''dependencies'' = Inr deps \<and>
        py_getitem deps (get_dependency_name False release_url None) = Inr e \<and>
        \<not> (has_field e ''tag'' \<and> has_field e ''version'') \<and>
        (truthy (url_tag_of release_url) \<longrightarrow>
           py_getitem e ''tag'' = Inr (JStr (the (py_or None (url_tag_of release_url)))) \<and>
           \<not> has_field e ''version'')"
    using entry_has_tag_or_version_not_both[of "Some [''app'']" False Missing release_url None None
         "Some ''1.0.0''" "Holds ?m"] h by (rule mp)
  then obtain m deps e where c: "Holds ?m = Holds m \<and> py_getitem m ''dependencies'' = Inr deps \<and>
        py_getitem deps (get_dependency_name False release_url None) = Inr e \<and>
        \<not> (has_field e ''tag'' \<and> has_field e ''version'') \<and>
        (truthy (url_tag_of release_url) \<longrightarrow>
           py_getitem e ''tag'' = Inr (JStr (the (py_or None (url_tag_of release_url)))) \<and>
           \<not> has_field e ''version'')"
    by (elim exE)
  note c1 = c[THEN conjunct1]
  note c2 = c[THEN conjunct2, THEN conjunct1]
  note c3 = c[THEN conjunct2, THEN conjunct2, THEN conjunct1]
  note c5 = c[THEN conjunct2, THEN conjunct2, THEN conjunct2, THEN conjunct2]
  have a: "add_dependency (Some [''app'']) False Missing release_url None None (Some ''1.0.0'')
      = (Added, Holds m)" using h c1 by (rule trans[OF _ arg_cong[where f = "Pair Added"]])
  have e3: "py_getitem deps ''SemVer'' = Inr e" using c3 by (simp only: n)
  have tv: "py_getitem e ''tag'' = Inr (JStr (the (py_or None (url_tag_of release_url)))) \<and>
           \<not> has_field e ''version''" using c5 t by (rule mp)
  have e4: "py_getitem e ''tag'' = Inr (JStr ''0.2.0'')" using tv[THEN conjunct1] by (simp only: o)
  note e5 = tv[THEN conjunct2]
  from a c2 e3 e4 e5 show ?thesis
    by (intro exI[of _ m] exI[of _ deps] exI[of _ e] conjI) assumption+
qed

end
